theory Spec2Isabelle
  imports Main "HOL-Library.AList" "HOL-Library.Char_ord" "HOL-Library.List_Lexorder"
begin

section \<open>The world quack.go runs in\<close>

text \<open>
  quack.go keeps a DuckDB database and a directory of snapshot archives. Its functions
  are modelled over an explicit world: the entries of \<open><dir>/snapshot\<close> and the
  tables of the engine. A table is a name with its rows; a JSON record is an opaque
  string. Names are Go strings, ordered bytewise as \<open>sort.Strings\<close> orders them (the
  lexicographic order on \<open>char list\<close>).
\<close>

type_synonym row = string
type_synonym catalog = "(string \<times> row list) list"

text \<open>
  A snapshot file is either a complete zip archive of an export of the database, or a
  file that \<open>os.Create\<close> made and that no \<open>zip.Writer\<close> has finished (empty or
  truncated): \<open>zip.OpenReader\<close> refuses it.
\<close>

datatype snapfile = Partial | Archive catalog

type_synonym snapdir = "(string \<times> snapfile) list"

text \<open>
  The engine holds the committed tables and, while a transaction is open, the tables as
  the transaction sees them.
\<close>

record world =
  snapshot :: snapdir
  tables :: catalog
  txn :: "catalog option"

text \<open>
  Every Go \<open>error\<close> the code returns, and the run-time panic of an index or slice bound
  out of range. \<open>InvalidArgument\<close> is the error of line 209, \<open>NoSnapshot\<close> that of
  line 218, \<open>ErrNotExist\<close> is \<open>os.ErrNotExist\<close>.
\<close>

datatype error =
  IOError | EngineError | CorruptArchive | InvalidArgument | NoSnapshot | ErrNotExist | Panic

text \<open>
  The calls to the operating system, the zip codec and the engine that can fail for
  reasons outside the program. An environment says which of them fail.
\<close>

datatype call =
  ReadDir | Remove string | Create | MkdirTemp | CreateTemp | IoCopy
  | MkdirAll | NewConnector | Conn
  | Export | AddFS | ZipClose | FileClose | DbClose | ConnecterClose
  | ShowTables | BeginTx | DropTable string | Commit
  | OpenReader | Extract | Import | CreateTable | CopyFrom

type_synonym env = "call \<Rightarrow> bool"

definition no_faults :: env where
  "no_faults = (\<lambda>c. False)"

section \<open>Directory listing and rotation\<close>

text \<open>\<open>listDir\<close> (lines 21-32): the names of the entries, sorted ascending.\<close>

definition listDir :: "env \<Rightarrow> snapdir \<Rightarrow> error + string list" where
  "listDir e d = (if e ReadDir then Inl IOError else Inr (sort (map fst d)))"

text \<open>\<open>os.Remove\<close> of one entry of the directory.\<close>

definition os_Remove :: "env \<Rightarrow> string \<Rightarrow> snapdir \<Rightarrow> error + snapdir" where
  "os_Remove e m d =
     (if e (Remove m) then Inl IOError
      else if m \<in> set (map fst d) then Inr (AList.delete m d)
      else Inl ErrNotExist)"

text \<open>The loop of lines 41-45: the first removal that fails ends the rotation.\<close>

fun remove_loop :: "env \<Rightarrow> string list \<Rightarrow> snapdir \<Rightarrow> error option \<times> snapdir" where
  "remove_loop e [] d = (None, d)"
| "remove_loop e (m # ms) d =
     (case os_Remove e m d of
        Inl err \<Rightarrow> (Some err, d)
      | Inr d' \<Rightarrow> remove_loop e ms d')"

text \<open>
  \<open>rotate\<close> (lines 34-48), named \<open>rotate_dir\<close> here. The slice \<open>matches[n:]\<close> panics for a negative \<open>n\<close>; for
  \<open>0 \<le> n < len(matches)\<close> it is the entries from index \<open>n\<close> on.
\<close>

definition rotate_dir :: "env \<Rightarrow> int \<Rightarrow> snapdir \<Rightarrow> error option \<times> snapdir" where
  "rotate_dir e n d =
     (case listDir e d of
        Inl err \<Rightarrow> (Some err, d)
      | Inr matches \<Rightarrow>
          if int (length matches) > n then
            (if n < 0 then (Some Panic, d)
             else remove_loop e (drop (nat n) (sort matches)) d)
          else (None, d))"

section \<open>Export and import of the database\<close>

text \<open>\<open>os.Create\<close>: a new empty file, or an existing one truncated.\<close>

definition os_Create :: "string \<Rightarrow> snapdir \<Rightarrow> snapdir" where
  "os_Create name d = AList.update name Partial d"

text \<open>
  \<open>dumpAndZip\<close> (lines 50-64). The writer is the open snapshot file, given by its
  name. The file holds a complete archive of the committed tables once
  \<open>zw.Close\<close> has returned without error; every earlier return leaves what
  \<open>os.Create\<close> and the unfinished writer left.
\<close>

definition dumpAndZip :: "env \<Rightarrow> string \<Rightarrow> world \<Rightarrow> error option \<times> world" where
  "dumpAndZip e f w =
     (if e MkdirTemp then (Some IOError, w)
      else if e Export then (Some EngineError, w)
      else if e AddFS then (Some IOError, w)
      else if e ZipClose then (Some IOError, w)
      else (None, w\<lparr>snapshot := AList.update f (Archive (tables w)) (snapshot w)\<rparr>))"

text \<open>
  \<open>unzipAndLoad\<close> (lines 66-100). \<open>IMPORT DATABASE\<close> creates the tables of the
  export; the engine refuses a table that exists already.
\<close>

definition unzipAndLoad :: "env \<Rightarrow> string \<Rightarrow> world \<Rightarrow> error option \<times> world" where
  "unzipAndLoad e file w =
     (if e MkdirTemp then (Some IOError, w)
      else case map_of (snapshot w) file of
        None \<Rightarrow> (Some ErrNotExist, w)
      | Some Partial \<Rightarrow> (Some CorruptArchive, w)
      | Some (Archive a) \<Rightarrow>
          if e OpenReader then (Some IOError, w)
          else if e Extract then (Some IOError, w)
          else if e Import then (Some EngineError, w)
          else if set (map fst a) \<inter> set (map fst (tables w)) = {}
            then (None, w\<lparr>tables := tables w @ a\<rparr>)
          else (Some EngineError, w))"

section \<open>Tables\<close>

text \<open>\<open>showTables\<close> (lines 102-117).\<close>

definition showTables :: "env \<Rightarrow> world \<Rightarrow> error + string list" where
  "showTables e w = (if e ShowTables then Inl EngineError else Inr (map fst (tables w)))"

text \<open>\<open>tableExists\<close> (lines 119-130): \<open>nil\<close> when the name is in the catalog.\<close>

definition tableExists :: "env \<Rightarrow> string \<Rightarrow> world \<Rightarrow> error option" where
  "tableExists e table w =
     (case showTables e w of
        Inl err \<Rightarrow> Some err
      | Inr ts \<Rightarrow> if table \<in> set ts then None else Some ErrNotExist)"

text \<open>
  \<open>insert\<close> (lines 140-163), named \<open>insert_records\<close> here. The record stream is the list of its JSON objects.
  \<open>CREATE TABLE .. AS SELECT * FROM read_json_auto\<close> makes a table of one row per
  record; \<open>COPY .. FROM\<close> adds one row per record to the table.
\<close>

definition insert_records :: "env \<Rightarrow> string \<Rightarrow> row list \<Rightarrow> world \<Rightarrow> error option \<times> world" where
  "insert_records e table r w =
     (if e CreateTemp then (Some IOError, w)
      else if e IoCopy then (Some IOError, w)
      else case tableExists e table w of
        Some err \<Rightarrow>
          if err = ErrNotExist then
            (if e CreateTable then (Some EngineError, w)
             else (None, w\<lparr>tables := tables w @ [(table, r)]\<rparr>))
          else (Some err, w)
      | None \<Rightarrow>
          if e CopyFrom then (Some EngineError, w)
          else (None, w\<lparr>tables := AList.map_entry table (\<lambda>rows. rows @ r) (tables w)\<rparr>))"

text \<open>Successive calls of \<open>insert\<close> on one table; the first error ends the sequence.\<close>

fun insert_all :: "env \<Rightarrow> string \<Rightarrow> row list list \<Rightarrow> world \<Rightarrow> error option \<times> world" where
  "insert_all e table [] w = (None, w)"
| "insert_all e table (r # rs) w =
     (case insert_records e table r w of
        (Some err, w') \<Rightarrow> (Some err, w')
      | (None, w') \<Rightarrow> insert_all e table rs w')"

section \<open>The client\<close>

record client =
  c_dir :: string
  c_n :: int

text \<open>An option of \<open>New\<close> is modelled by the error it returns on the connection.\<close>

fun apply_options :: "error option list \<Rightarrow> error option" where
  "apply_options [] = None"
| "apply_options (opt # opts) =
     (case opt of Some err \<Rightarrow> Some err | None \<Rightarrow> apply_options opts)"

text \<open>\<open>New\<close> (lines 177-205).\<close>

definition New :: "env \<Rightarrow> string \<Rightarrow> int \<Rightarrow> error option list \<Rightarrow> error + client" where
  "New e dir n options =
     (if e MkdirAll then Inl IOError
      else if e NewConnector then Inl EngineError
      else if e Conn then Inl EngineError
      else case apply_options options of
        Some err \<Rightarrow> Inl err
      | None \<Rightarrow> Inr \<lparr>c_dir = dir, c_n = n\<rparr>)"

subsection \<open>Transactions\<close>

text \<open>
  The engine's transaction: statements of the transaction work on its own view of the
  tables; a commit that succeeds publishes the view, a commit that fails or a rollback
  discards it. After either the transaction is done, and the deferred
  \<open>tx.Rollback()\<close> changes nothing.
\<close>

definition tx_begin :: "env \<Rightarrow> world \<Rightarrow> error + world" where
  "tx_begin e w = (if e BeginTx then Inl EngineError else Inr (w\<lparr>txn := Some (tables w)\<rparr>))"

definition tx_drop :: "env \<Rightarrow> string \<Rightarrow> world \<Rightarrow> error + world" where
  "tx_drop e t w =
     (case txn w of
        None \<Rightarrow> Inl EngineError
      | Some cat \<Rightarrow>
          if e (DropTable t) then Inl EngineError
          else if t \<in> set (map fst cat) then Inr (w\<lparr>txn := Some (AList.delete t cat)\<rparr>)
          else Inl EngineError)"

definition tx_commit :: "env \<Rightarrow> world \<Rightarrow> error option \<times> world" where
  "tx_commit e w =
     (case txn w of
        None \<Rightarrow> (Some EngineError, w)
      | Some cat \<Rightarrow>
          if e Commit then (Some EngineError, w\<lparr>txn := None\<rparr>)
          else (None, w\<lparr>tables := cat, txn := None\<rparr>))"

definition tx_rollback :: "world \<Rightarrow> world" where
  "tx_rollback w = w\<lparr>txn := None\<rparr>"

text \<open>The loop of lines 229-233.\<close>

fun drop_loop :: "env \<Rightarrow> string list \<Rightarrow> world \<Rightarrow> error option \<times> world" where
  "drop_loop e [] w = (None, w)"
| "drop_loop e (t # ts) w =
     (case tx_drop e t w of
        Inl err \<Rightarrow> (Some err, w)
      | Inr w' \<Rightarrow> drop_loop e ts w')"

subsection \<open>Rollback\<close>

text \<open>
  Lines 229-238, the part of \<open>RollbackSnapshot\<close> that runs under the deferred
  \<open>tx.Rollback()\<close>. The index \<open>len(matches)-n\<close> is computed on Go's 64-bit \<open>int\<close>;
  the subtraction can only wrap for a negative \<open>n\<close>, where the exact difference is at
  least \<open>len(matches)\<close> and the wrapped one is negative, so the index is out of range
  either way and the exact difference on \<open>int\<close> decides the same.
\<close>

definition snapshot_index :: "string list \<Rightarrow> int \<Rightarrow> int" where
  "snapshot_index matches n = int (length matches) - n"

definition rollback_body :: "env \<Rightarrow> int \<Rightarrow> string list \<Rightarrow> string list \<Rightarrow> world \<Rightarrow> error option \<times> world" where
  "rollback_body e n matches tabs w =
     (case drop_loop e tabs w of
        (Some err, w2) \<Rightarrow> (Some err, w2)
      | (None, w2) \<Rightarrow>
          (case tx_commit e w2 of
             (Some err, w3) \<Rightarrow> (Some err, w3)
           | (None, w3) \<Rightarrow>
               let i = snapshot_index matches n in
               if i < 0 then (Some Panic, w3)
               else if int (length matches) \<le> i then (Some Panic, w3)
               else unzipAndLoad e (sort matches ! nat i) w3))"

text \<open>\<open>Client.RollbackSnapshot\<close> (lines 207-239).\<close>

definition RollbackSnapshot :: "env \<Rightarrow> client \<Rightarrow> int \<Rightarrow> world \<Rightarrow> error option \<times> world" where
  "RollbackSnapshot e c n w =
     (if n > c_n c then (Some InvalidArgument, w)
      else case listDir e (snapshot w) of
        Inl err \<Rightarrow> (Some err, w)
      | Inr matches \<Rightarrow>
          if length matches = 0 then (Some NoSnapshot, w)
          else
            (case showTables e w of
               Inl err \<Rightarrow> (Some err, w)
             | Inr tabs \<Rightarrow>
                 (case tx_begin e w of
                    Inl err \<Rightarrow> (Some err, w)
                  | Inr w1 \<Rightarrow>
                      (case rollback_body e n matches tabs w1 of
                         (r, w') \<Rightarrow> (r, tx_rollback w')))))"

subsection \<open>Close\<close>

text \<open>
  \<open>Client.Close\<close> (lines 259-280). The identifier of the new snapshot comes from
  \<open>ulid.MustNewDefault(time.Now())\<close> and is an input here.
\<close>

definition Close :: "env \<Rightarrow> client \<Rightarrow> string \<Rightarrow> world \<Rightarrow> error option \<times> world" where
  "Close e c ident w =
     (if e Create then (Some IOError, w)
      else
        (case dumpAndZip e ident (w\<lparr>snapshot := os_Create ident (snapshot w)\<rparr>) of
           (Some err, w2) \<Rightarrow> (Some err, w2)
         | (None, w2) \<Rightarrow>
             if e FileClose then (Some IOError, w2)
             else
               (case rotate_dir e (c_n c) (snapshot w2) of
                  (Some err, d) \<Rightarrow> (Some err, w2\<lparr>snapshot := d\<rparr>)
                | (None, d) \<Rightarrow>
                    if e DbClose then (Some EngineError, w2\<lparr>snapshot := d\<rparr>)
                    else if e ConnecterClose then (Some EngineError, w2\<lparr>snapshot := d\<rparr>)
                    else (None, w2\<lparr>snapshot := d\<rparr>))))"

text \<open>
  Successive clients on one directory, each closed once (as the repository's test does):
  the identifiers are those of the snapshots, in the order of the calls.
\<close>

fun close_all :: "env \<Rightarrow> client \<Rightarrow> string list \<Rightarrow> world \<Rightarrow> error option \<times> world" where
  "close_all e c [] w = (None, w)"
| "close_all e c (ident # ids) w =
     (case Close e c ident w of
        (Some err, w') \<Rightarrow> (Some err, w')
      | (None, w') \<Rightarrow> close_all e c ids w')"

section \<open>Rotation\<close>

lemma no_faults_never [simp]: "\<not> no_faults c"
  by (simp add: no_faults_def)

lemma delete_as_filter: "AList.delete m d = filter (\<lambda>p. fst p \<noteq> m) d"
  by (induction d) auto

lemma names_filter: "map fst (filter (\<lambda>p. P (fst p)) d) = filter P (map fst d)"
  by (induction d) auto

lemma takeWhile_after_dropWhile: "takeWhile P (dropWhile P xs) = []"
  by (induction xs) auto

lemma filter_out_middle:
  "distinct (xs @ ys @ zs) \<Longrightarrow> filter (\<lambda>x. x \<notin> set ys) (xs @ ys @ zs) = xs @ zs"
proof -
  assume d: "distinct (xs @ ys @ zs)"
  have "filter (\<lambda>x. x \<notin> set ys) xs = xs"
    using d by (auto simp: filter_id_conv)
  moreover have "filter (\<lambda>x. x \<notin> set ys) zs = zs"
    using d by (auto simp: filter_id_conv)
  moreover have "filter (\<lambda>x. x \<notin> set ys) ys = []"
    by (simp add: filter_empty_conv)
  ultimately show ?thesis by simp
qed

text \<open>
  What the loop leaves: the entries whose removal was reached, the names up to the
  first one that cannot be removed, are gone.
\<close>

lemma remove_loop_snd:
  "distinct ms \<Longrightarrow> set ms \<subseteq> fst ` set d \<Longrightarrow>
   snd (remove_loop e ms d) =
     filter (\<lambda>p. fst p \<notin> set (takeWhile (\<lambda>m. \<not> e (Remove m)) ms)) d"
proof (induction ms arbitrary: d)
  case Nil
  then show ?case by simp
next
  case (Cons m ms)
  show ?case
  proof (cases "e (Remove m)")
    case True
    then show ?thesis by (simp add: os_Remove_def)
  next
    case False
    let ?d = "AList.delete m d"
    have sub: "set ms \<subseteq> fst ` set ?d"
      using Cons.prems by (force simp: delete_as_filter)
    have step: "remove_loop e (m # ms) d = remove_loop e ms ?d"
      using False Cons.prems by (simp add: os_Remove_def)
    have "snd (remove_loop e ms ?d) =
        filter (\<lambda>p. fst p \<notin> set (takeWhile (\<lambda>m. \<not> e (Remove m)) ms)) ?d"
      using Cons.IH [OF _ sub] Cons.prems by simp
    then show ?thesis
      unfolding step using False by (simp add: delete_as_filter conj_commute)
  qed
qed

lemma remove_loop_fst:
  "distinct ms \<Longrightarrow> set ms \<subseteq> fst ` set d \<Longrightarrow>
   fst (remove_loop e ms d) =
     (if list_all (\<lambda>m. \<not> e (Remove m)) ms then None else Some IOError)"
proof (induction ms arbitrary: d)
  case Nil
  then show ?case by simp
next
  case (Cons m ms)
  show ?case
  proof (cases "e (Remove m)")
    case True
    then show ?thesis by (simp add: os_Remove_def)
  next
    case False
    let ?d = "AList.delete m d"
    have sub: "set ms \<subseteq> fst ` set ?d"
      using Cons.prems by (force simp: delete_as_filter)
    have step: "remove_loop e (m # ms) d = remove_loop e ms ?d"
      using False Cons.prems by (simp add: os_Remove_def)
    show ?thesis
      unfolding step using Cons.IH [OF _ sub] Cons.prems False by simp
  qed
qed

text \<open>
  Without failures \<open>rotate\<close> removes the entries from index \<open>n\<close> of the ascending
  listing on, and so keeps the \<open>n\<close> smallest names.
\<close>

lemma rotate_dir_no_faults:
  assumes "distinct (map fst d)" and "0 \<le> n"
  shows "rotate_dir no_faults n d =
    (None, filter (\<lambda>p. fst p \<notin> set (drop (nat n) (sort (map fst d)))) d)"
proof (cases "n < int (length d)")
  case False
  then have "drop (nat n) (sort (map fst d)) = []" by simp
  then show ?thesis
    using False by (simp add: rotate_dir_def listDir_def)
next
  case True
  let ?ms = "drop (nat n) (sort (map fst d))"
  have dms: "distinct ?ms" using assms(1) by simp
  have sub: "set ?ms \<subseteq> fst ` set d"
    using set_drop_subset [of "nat n" "sort (map fst d)"] by auto
  have run: "rotate_dir no_faults n d = remove_loop no_faults ?ms d"
    using True assms(2) by (simp add: rotate_dir_def listDir_def sorted_sort_id)
  have all: "takeWhile (\<lambda>m. True) ?ms = ?ms"
    by (simp add: takeWhile_eq_all_conv)
  have "snd (remove_loop no_faults ?ms d) = filter (\<lambda>p. fst p \<notin> set ?ms) d"
    using remove_loop_snd [OF dms sub, of no_faults] by (simp add: all)
  moreover have "fst (remove_loop no_faults ?ms d) = None"
    using remove_loop_fst [OF dms sub, of no_faults] by (simp add: list_all_iff)
  ultimately show ?thesis unfolding run by (simp add: prod_eq_iff)
qed

lemma rotate_dir_zero:
  assumes "distinct (map fst d)"
  shows "rotate_dir no_faults 0 d = (None, [])"
  using rotate_dir_no_faults [OF assms, of 0] by (simp add: filter_empty_conv)

section \<open>Dropping the tables in the transaction\<close>

lemma drop_loop_all:
  "distinct ts \<Longrightarrow> set ts \<subseteq> fst ` set cat \<Longrightarrow> list_all (\<lambda>t. \<not> e (DropTable t)) ts \<Longrightarrow>
   drop_loop e ts (w\<lparr>txn := Some cat\<rparr>) =
     (None, w\<lparr>txn := Some (filter (\<lambda>p. fst p \<notin> set ts) cat)\<rparr>)"
proof (induction ts arbitrary: cat)
  case Nil
  then show ?case by simp
next
  case (Cons t ts)
  let ?cat = "AList.delete t cat"
  have sub: "set ts \<subseteq> fst ` set ?cat"
    using Cons.prems by (force simp: delete_as_filter)
  have step: "tx_drop e t (w\<lparr>txn := Some cat\<rparr>) = Inr (w\<lparr>txn := Some ?cat\<rparr>)"
    using Cons.prems by (simp add: tx_drop_def)
  have "drop_loop e ts (w\<lparr>txn := Some ?cat\<rparr>) =
      (None, w\<lparr>txn := Some (filter (\<lambda>p. fst p \<notin> set ts) ?cat)\<rparr>)"
    using Cons.IH [OF _ sub] Cons.prems by simp
  then show ?case
    by (simp add: step delete_as_filter conj_commute)
qed

lemma drop_loop_catalog:
  "distinct (map fst cat) \<Longrightarrow> list_all (\<lambda>t. \<not> e (DropTable t)) (map fst cat) \<Longrightarrow>
   drop_loop e (map fst cat) (w\<lparr>txn := Some cat\<rparr>) = (None, w\<lparr>txn := Some []\<rparr>)"
proof -
  assume d: "distinct (map fst cat)" and ok: "list_all (\<lambda>t. \<not> e (DropTable t)) (map fst cat)"
  have "filter (\<lambda>p. fst p \<notin> set (map fst cat)) cat = []"
    by (simp add: filter_empty_conv)
  then show ?thesis
    using drop_loop_all [OF d _ ok, of cat w] by simp
qed

lemma drop_loop_keeps:
  "drop_loop e ts w = (r, w') \<Longrightarrow> tables w' = tables w \<and> snapshot w' = snapshot w"
proof (induction ts arbitrary: w)
  case Nil
  then show ?case by simp
next
  case (Cons t ts)
  show ?case
  proof (cases "tx_drop e t w")
    case (Inl err)
    then show ?thesis using Cons.prems by simp
  next
    case (Inr w1)
    then have "tables w1 = tables w \<and> snapshot w1 = snapshot w"
      by (auto simp: tx_drop_def split: option.splits if_splits)
    moreover have "tables w' = tables w1 \<and> snapshot w' = snapshot w1"
      using Cons.IH [of w1] Cons.prems Inr by simp
    ultimately show ?thesis by simp
  qed
qed

lemma sort_last_Max:
  assumes "xs \<noteq> []"
  shows "sort xs ! (length xs - 1) = Max (set xs)"
proof -
  let ?S = "sort xs"
  have len: "length ?S = length xs" by simp
  have pos: "0 < length xs" using assms by simp
  have "Max (set xs) = ?S ! (length xs - 1)"
  proof (rule Max_eqI)
    show "finite (set xs)" by simp
  next
    fix y assume "y \<in> set xs"
    then have "y \<in> set ?S" by simp
    then obtain i where i: "i < length ?S" "?S ! i = y"
      unfolding in_set_conv_nth by blast
    have "?S ! i \<le> ?S ! (length xs - 1)"
      using i pos by (intro sorted_nth_mono) auto
    then show "y \<le> ?S ! (length xs - 1)" using i by simp
  next
    have "?S ! (length xs - 1) \<in> set ?S"
      using pos by (intro nth_mem) simp
    then show "?S ! (length xs - 1) \<in> set xs" by simp
  qed
  then show ?thesis by simp
qed

section \<open>The claims\<close>

text \<open>
  Claim C8. Rotation is idempotent: for every directory (its entries have distinct
  names), every limit and every environment, a second \<open>rotate\<close> right after a
  first one leaves the directory as the first one left it; and when the first one
  returned no error, the second one returns none either.
\<close>

theorem rotate_idempotent:
  assumes "distinct (map fst d)"
  shows "snd (rotate_dir e n (snd (rotate_dir e n d))) = snd (rotate_dir e n d)
    \<and> (fst (rotate_dir e n d) = None \<longrightarrow>
         rotate_dir e n (snd (rotate_dir e n d)) = (None, snd (rotate_dir e n d)))"
proof -
  let ?S = "sort (map fst d)"
  let ?ok = "\<lambda>m. \<not> e (Remove m)"
  consider (err) "e ReadDir" | (few) "\<not> e ReadDir" "int (length d) \<le> n"
    | (neg) "\<not> e ReadDir" "n < int (length d)" "n < 0"
    | (go) "\<not> e ReadDir" "n < int (length d)" "0 \<le> n"
    by linarith
  then show ?thesis
  proof cases
    case err
    then show ?thesis by (simp add: rotate_dir_def listDir_def)
  next
    case few
    then show ?thesis by (simp add: rotate_dir_def listDir_def)
  next
    case neg
    then show ?thesis by (simp add: rotate_dir_def listDir_def)
  next
    case go
    let ?ms = "drop (nat n) ?S"
    let ?R = "takeWhile ?ok ?ms"
    let ?d' = "filter (\<lambda>p. fst p \<notin> set ?R) d"
    have dS: "distinct ?S" using assms by simp
    have dms: "distinct ?ms" using dS by (rule distinct_drop)
    have sub: "set ?ms \<subseteq> fst ` set d"
      using set_drop_subset [of "nat n" ?S] by auto
    have run: "rotate_dir e n d = remove_loop e ?ms d"
      using go by (simp add: rotate_dir_def listDir_def sorted_sort_id)
    have first: "snd (rotate_dir e n d) = ?d'"
      unfolding run using remove_loop_snd [OF dms sub, of e] .
    have split: "?S = take (nat n) ?S @ ?R @ dropWhile ?ok ?ms"
      by simp
    have nd': "map fst ?d' = filter (\<lambda>x. x \<notin> set ?R) (map fst d)"
      by (rule names_filter)
    have "sort (map fst ?d') = filter (\<lambda>x. x \<notin> set ?R) ?S"
      unfolding nd' by (simp add: filter_sort)
    also have "\<dots> = filter (\<lambda>x. x \<notin> set ?R) (take (nat n) ?S @ ?R @ dropWhile ?ok ?ms)"
      using split by simp
    also have "\<dots> = take (nat n) ?S @ dropWhile ?ok ?ms"
      using dS split by (intro filter_out_middle) simp
    finally have S': "sort (map fst ?d') = take (nat n) ?S @ dropWhile ?ok ?ms" .
    have len: "length (take (nat n) ?S) = nat n" using go by simp
    have ms': "drop (nat n) (sort (map fst ?d')) = dropWhile ?ok ?ms"
      using len by (simp add: S')
    have dms': "distinct (dropWhile ?ok ?ms)" using dms by (rule distinct_dropWhile)
    have sub': "set (dropWhile ?ok ?ms) \<subseteq> fst ` set ?d'"
    proof -
      have "set (dropWhile ?ok ?ms) \<subseteq> set (sort (map fst ?d'))"
        by (simp add: S')
      then show ?thesis by auto
    qed
    have second: "snd (remove_loop e (dropWhile ?ok ?ms) ?d') = ?d'"
      using remove_loop_snd [OF dms' sub', of e] by (simp add: takeWhile_after_dropWhile)
    have again: "snd (rotate_dir e n ?d') = ?d'"
      using go second ms' by (simp add: rotate_dir_def listDir_def sorted_sort_id)
    have clean: "rotate_dir e n ?d' = (None, ?d')" if ok: "fst (rotate_dir e n d) = None"
    proof -
      have "list_all ?ok ?ms"
        using ok remove_loop_fst [OF dms sub, of e] unfolding run
        by (simp split: if_splits)
      then have "dropWhile ?ok ?ms = []"
        by (simp add: list_all_iff)
      then have "length (sort (map fst ?d')) = nat n"
        using len by (simp add: S')
      then have "length ?d' = nat n" by simp
      then show ?thesis
        using go by (simp add: rotate_dir_def listDir_def)
    qed
    show ?thesis using again clean by (simp add: first)
  qed
qed

theorem rotate_idempotent_witness:
  "distinct (map fst [(''01C'', Archive []), (''01A'', Archive []), (''01B'', Partial)])
   \<and> snd (rotate_dir no_faults 1 [(''01C'', Archive []), (''01A'', Archive []), (''01B'', Partial)])
       = [(''01A'', Archive [])]
   \<and> rotate_dir no_faults 1 (snd (rotate_dir no_faults 1
         [(''01C'', Archive []), (''01A'', Archive []), (''01B'', Partial)]))
       = (None, [(''01A'', Archive [])])"
  using rotate_idempotent [of "[(''01C'', Archive []), (''01A'', Archive []), (''01B'', Partial)]" no_faults 1]
  by (simp add: rotate_dir_def listDir_def no_faults_def os_Remove_def)


text \<open>
  Claim C4, as amended. For every index \<open>n\<close> with \<open>0 < n \<le> N\<close> that is also at most
  the number of snapshots in the directory, when no call to the system or the engine
  fails and the selected file is a complete archive, \<open>RollbackSnapshot(n)\<close> replaces
  the tables by those of the snapshot at index \<open>len - n\<close> of the ascending listing;
  for \<open>n = 1\<close> that is the snapshot of the greatest name.
\<close>

theorem RollbackSnapshot_selects:
  assumes "0 < n" and "n \<le> c_n c" and "n \<le> int (length (snapshot w))"
    and "distinct (map fst (tables w))"
    and "map_of (snapshot w) (sort (map fst (snapshot w)) ! (length (snapshot w) - nat n))
           = Some (Archive a)"
  shows "RollbackSnapshot no_faults c n w = (None, w\<lparr>tables := a, txn := None\<rparr>)
    \<and> (n = 1 \<longrightarrow> sort (map fst (snapshot w)) ! (length (snapshot w) - nat n)
                    = Max (set (map fst (snapshot w))))"
proof -
  let ?names = "map fst (snapshot w)"
  let ?matches = "sort ?names"
  let ?i = "snapshot_index ?matches n"
  have ne: "snapshot w \<noteq> []" using assms(1,3) by auto
  have idx: "0 \<le> ?i" "?i < int (length ?matches)" "nat ?i = length (snapshot w) - nat n"
    using assms(1,3) by (auto simp: snapshot_index_def)
  have drops: "drop_loop no_faults (map fst (tables w)) (w\<lparr>txn := Some (tables w)\<rparr>)
      = (None, w\<lparr>txn := Some []\<rparr>)"
    using assms(4) by (intro drop_loop_catalog) (simp_all add: list_all_iff)
  have load: "unzipAndLoad no_faults (?matches ! nat ?i) (w\<lparr>tables := [], txn := None\<rparr>)
      = (None, w\<lparr>tables := a, txn := None\<rparr>)"
    using assms(5) idx(3) by (simp add: unzipAndLoad_def)
  have commit: "tx_commit no_faults (w\<lparr>txn := Some []\<rparr>) = (None, w\<lparr>tables := [], txn := None\<rparr>)"
    by (simp add: tx_commit_def)
  have body: "rollback_body no_faults n ?matches (map fst (tables w)) (w\<lparr>txn := Some (tables w)\<rparr>)
      = (None, w\<lparr>tables := a, txn := None\<rparr>)"
    using idx(1,2) load
    by (simp add: rollback_body_def drops commit sorted_sort_id Let_def)
  have "RollbackSnapshot no_faults c n w = (None, w\<lparr>tables := a, txn := None\<rparr>)"
    using assms(2) ne body
    by (simp add: RollbackSnapshot_def listDir_def showTables_def tx_begin_def tx_rollback_def)
  moreover have "sort ?names ! (length (snapshot w) - 1) = Max (set ?names)"
    using sort_last_Max [of ?names] ne by simp
  ultimately show ?thesis by simp
qed


theorem RollbackSnapshot_selects_witness:
  "(0::int) < 2 \<and> (2::int) \<le> c_n \<lparr>c_dir = ''d'', c_n = 3\<rparr>
   \<and> RollbackSnapshot no_faults \<lparr>c_dir = ''d'', c_n = 3\<rparr> 2
        \<lparr>snapshot = [(''01C'', Archive [(''t'', [''r1'', ''r2'', ''r3''])]),
                     (''01A'', Archive [(''t'', [''r1''])]),
                     (''01B'', Archive [(''t'', [''r1'', ''r2''])])],
         tables = [(''t'', [''r1'']), (''u'', [])], txn = None\<rparr>
     = (None,
        \<lparr>snapshot = [(''01C'', Archive [(''t'', [''r1'', ''r2'', ''r3''])]),
                     (''01A'', Archive [(''t'', [''r1''])]),
                     (''01B'', Archive [(''t'', [''r1'', ''r2''])])],
         tables = [(''t'', [''r1'', ''r2''])], txn = None\<rparr>)"
  using RollbackSnapshot_selects [of 2 "\<lparr>c_dir = ''d'', c_n = 3\<rparr>"
      "\<lparr>snapshot = [(''01C'', Archive [(''t'', [''r1'', ''r2'', ''r3''])]),
                     (''01A'', Archive [(''t'', [''r1''])]),
                     (''01B'', Archive [(''t'', [''r1'', ''r2''])])],
         tables = [(''t'', [''r1'']), (''u'', [])], txn = None\<rparr>"
      "[(''t'', [''r1'', ''r2''])]"]
  by simp

text \<open>
  The claim as stated fails where the directory holds fewer than \<open>n\<close> snapshots: with
  \<open>N = 3\<close>, \<open>n = 2\<close> and one snapshot, nothing is restored.
\<close>

theorem RollbackSnapshot_selects_counterexample:
  "(0::int) < 2 \<and> (2::int) \<le> c_n \<lparr>c_dir = ''d'', c_n = 3\<rparr>
   \<and> RollbackSnapshot no_faults \<lparr>c_dir = ''d'', c_n = 3\<rparr> 2
        \<lparr>snapshot = [(''01A'', Archive [(''t'', [''r1''])])],
         tables = [(''t'', [''r1'', ''r2''])], txn = None\<rparr>
     = (Some Panic,
        \<lparr>snapshot = [(''01A'', Archive [(''t'', [''r1''])])], tables = [], txn = None\<rparr>)"
  by (simp add: RollbackSnapshot_def listDir_def showTables_def tx_begin_def tx_rollback_def
      rollback_body_def tx_drop_def tx_commit_def snapshot_index_def)

text \<open>
  Claim C5. \<open>RollbackSnapshot\<close> drops the tables inside one transaction: the drops
  change the transaction's view only. When the commit fails, the operation returns an
  engine error, the transaction is closed, and every table is still there with its
  rows; more generally, in an environment where the commit fails, no call of
  \<open>RollbackSnapshot\<close> returns \<open>nil\<close> or changes a table or a snapshot file.
\<close>

theorem RollbackSnapshot_commit_failure:
  assumes "e Commit"
  shows "(n \<le> c_n c \<and> \<not> e ReadDir \<and> snapshot w \<noteq> [] \<and> \<not> e ShowTables \<and> \<not> e BeginTx
            \<and> list_all (\<lambda>t. \<not> e (DropTable t)) (map fst (tables w))
            \<and> distinct (map fst (tables w)) \<longrightarrow>
          drop_loop e (map fst (tables w)) (w\<lparr>txn := Some (tables w)\<rparr>)
            = (None, w\<lparr>txn := Some []\<rparr>)
          \<and> RollbackSnapshot e c n w = (Some EngineError, w\<lparr>txn := None\<rparr>))
    \<and> fst (RollbackSnapshot e c n w) \<noteq> None
    \<and> tables (snd (RollbackSnapshot e c n w)) = tables w
    \<and> snapshot (snd (RollbackSnapshot e c n w)) = snapshot w"
proof -
  have reach: "drop_loop e (map fst (tables w)) (w\<lparr>txn := Some (tables w)\<rparr>)
            = (None, w\<lparr>txn := Some []\<rparr>)
          \<and> RollbackSnapshot e c n w = (Some EngineError, w\<lparr>txn := None\<rparr>)"
    if h: "n \<le> c_n c" "\<not> e ReadDir" "snapshot w \<noteq> []" "\<not> e ShowTables" "\<not> e BeginTx"
      "list_all (\<lambda>t. \<not> e (DropTable t)) (map fst (tables w))" "distinct (map fst (tables w))"
  proof -
    have drops: "drop_loop e (map fst (tables w)) (w\<lparr>txn := Some (tables w)\<rparr>)
        = (None, w\<lparr>txn := Some []\<rparr>)"
      using h(7,6) by (rule drop_loop_catalog)
    have body: "rollback_body e n (sort (map fst (snapshot w))) (map fst (tables w))
        (w\<lparr>txn := Some (tables w)\<rparr>) = (Some EngineError, w\<lparr>txn := None\<rparr>)"
      using assms by (simp add: rollback_body_def drops tx_commit_def)
    have "RollbackSnapshot e c n w = (Some EngineError, w\<lparr>txn := None\<rparr>)"
      using h(1-5) body
      by (simp add: RollbackSnapshot_def listDir_def showTables_def tx_begin_def tx_rollback_def)
    then show ?thesis using drops by simp
  qed
  have body_any: "fst (rollback_body e n ms ts w1) \<noteq> None
      \<and> tables (snd (rollback_body e n ms ts w1)) = tables w1
      \<and> snapshot (snd (rollback_body e n ms ts w1)) = snapshot w1" for ms ts w1
  proof (cases "drop_loop e ts w1")
    case (Pair r w2)
    then have keep: "tables w2 = tables w1 \<and> snapshot w2 = snapshot w1"
      by (rule drop_loop_keeps)
    show ?thesis
      using Pair keep assms
      by (cases r) (auto simp: rollback_body_def tx_commit_def split: option.splits)
  qed
  have any: "fst (RollbackSnapshot e c n w) \<noteq> None
      \<and> tables (snd (RollbackSnapshot e c n w)) = tables w
      \<and> snapshot (snd (RollbackSnapshot e c n w)) = snapshot w"
    using body_any [of "sort (map fst (snapshot w))" "map fst (tables w)" "w\<lparr>txn := Some (tables w)\<rparr>"]
    by (auto simp: RollbackSnapshot_def listDir_def showTables_def tx_begin_def tx_rollback_def
        split: prod.splits)
  show ?thesis using reach any by blast
qed


theorem RollbackSnapshot_commit_failure_witness:
  "RollbackSnapshot (\<lambda>k. k = Commit) \<lparr>c_dir = ''d'', c_n = 3\<rparr> 1
        \<lparr>snapshot = [(''01A'', Archive [(''t'', [''r1''])])],
         tables = [(''t'', [''r1'', ''r2'']), (''u'', [''x''])], txn = None\<rparr>
     = (Some EngineError,
        \<lparr>snapshot = [(''01A'', Archive [(''t'', [''r1''])])],
         tables = [(''t'', [''r1'', ''r2'']), (''u'', [''x''])], txn = None\<rparr>)"
  using RollbackSnapshot_commit_failure [of "\<lambda>k. k = Commit" 1 "\<lparr>c_dir = ''d'', c_n = 3\<rparr>"
        "\<lparr>snapshot = [(''01A'', Archive [(''t'', [''r1''])])],
         tables = [(''t'', [''r1'', ''r2'']), (''u'', [''x''])], txn = None\<rparr>"]
  by simp


subsection \<open>Insert\<close>

lemma map_of_map_entry_same:
  "map_of (AList.map_entry k f cat) k = map_option f (map_of cat k)"
  by (induction cat) auto

lemma map_of_map_entry_other:
  "k' \<noteq> k \<Longrightarrow> map_of (AList.map_entry k f cat) k' = map_of cat k'"
  by (induction cat) auto

lemma map_of_in_names: "map_of cat k = Some v \<Longrightarrow> k \<in> fst ` set cat"
  by (metis domI dom_map_of_conv_image_fst)

lemma insert_all_existing:
  assumes "\<not> e CreateTemp" "\<not> e IoCopy" "\<not> e ShowTables" "\<not> e CopyFrom"
  shows "map_of (tables w) table = Some old \<Longrightarrow>
    \<exists>w'. insert_all e table rs w = (None, w')
      \<and> map_of (tables w') table = Some (old @ concat rs)
      \<and> (\<forall>t. t \<noteq> table \<longrightarrow> map_of (tables w') t = map_of (tables w) t)
      \<and> snapshot w' = snapshot w"
proof (induction rs arbitrary: w old)
  case Nil
  then show ?case by simp
next
  case (Cons r rs)
  let ?w1 = "w\<lparr>tables := AList.map_entry table (\<lambda>rows. rows @ r) (tables w)\<rparr>"
  have "table \<in> fst ` set (tables w)"
    using Cons.prems by (rule map_of_in_names)
  then have step: "insert_records e table r w = (None, ?w1)"
    using assms by (simp add: insert_records_def tableExists_def showTables_def)
  have "map_of (tables ?w1) table = Some (old @ r)"
    using Cons.prems by (simp add: map_of_map_entry_same)
  from Cons.IH [OF this] obtain w' where w': "insert_all e table rs ?w1 = (None, w')"
      "map_of (tables w') table = Some ((old @ r) @ concat rs)"
      "\<forall>t. t \<noteq> table \<longrightarrow> map_of (tables w') t = map_of (tables ?w1) t"
      "snapshot w' = snapshot ?w1"
    by blast
  show ?case
    using w' by (simp add: step map_of_map_entry_other)
qed

text \<open>
  Claim C7. When staging and the engine's statements do not fail: \<open>insert\<close> into a
  table that is not in the catalog creates it with one row per record; \<open>insert\<close>
  into a table that exists appends one row per record after the rows it had and
  leaves the other tables alone; and after a sequence of inserts into a table that
  did not exist, the table holds the records of all the inserts, so its row count is
  the sum of their record counts.
\<close>

theorem insert_create_or_append:
  assumes "\<not> e CreateTemp" "\<not> e IoCopy" "\<not> e ShowTables" "\<not> e CreateTable" "\<not> e CopyFrom"
  shows "(table \<notin> set (map fst (tables w)) \<longrightarrow>
            insert_records e table r w = (None, w\<lparr>tables := tables w @ [(table, r)]\<rparr>)
            \<and> map_of (tables w @ [(table, r)]) table = Some r)
    \<and> (\<forall>old. map_of (tables w) table = Some old \<longrightarrow>
            fst (insert_records e table r w) = None
            \<and> map_of (tables (snd (insert_records e table r w))) table = Some (old @ r)
            \<and> (\<forall>t. t \<noteq> table \<longrightarrow>
                  map_of (tables (snd (insert_records e table r w))) t = map_of (tables w) t))
    \<and> (table \<notin> set (map fst (tables w)) \<and> rs \<noteq> [] \<longrightarrow>
            fst (insert_all e table rs w) = None
            \<and> map_of (tables (snd (insert_all e table rs w))) table = Some (concat rs)
            \<and> length (concat rs) = sum_list (map length rs))"
proof -
  have absent: "map_of (tables w) table = None" if "table \<notin> set (map fst (tables w))"
    using that by (simp add: map_of_eq_None_iff)
  have create: "insert_records e table r' w = (None, w\<lparr>tables := tables w @ [(table, r')]\<rparr>)"
    if "table \<notin> set (map fst (tables w))" for r'
    using that assms by (simp add: insert_records_def tableExists_def showTables_def)
  have created: "map_of (tables w @ [(table, r')]) table = Some r'"
    if "table \<notin> set (map fst (tables w))" for r'
    using absent [OF that] by (simp add: map_add_Some_iff)
  have append: "fst (insert_records e table r w) = None
            \<and> map_of (tables (snd (insert_records e table r w))) table = Some (old @ r)
            \<and> (\<forall>t. t \<noteq> table \<longrightarrow>
                  map_of (tables (snd (insert_records e table r w))) t = map_of (tables w) t)"
    if "map_of (tables w) table = Some old" for old
    using insert_all_existing [OF assms(1,2,3,5) that, of "[r]"]
    by (auto split: prod.splits option.splits)
  have seq: "fst (insert_all e table rs w) = None
            \<and> map_of (tables (snd (insert_all e table rs w))) table = Some (concat rs)
            \<and> length (concat rs) = sum_list (map length rs)"
    if no: "table \<notin> set (map fst (tables w))" and ne: "rs \<noteq> []"
  proof -
    obtain r' rs' where rs: "rs = r' # rs'" using ne by (cases rs) auto
    let ?w1 = "w\<lparr>tables := tables w @ [(table, r')]\<rparr>"
    have "map_of (tables ?w1) table = Some r'"
      using created [OF no] by simp
    from insert_all_existing [OF assms(1,2,3,5) this, of rs']
    obtain w' where "insert_all e table rs' ?w1 = (None, w')"
      "map_of (tables w') table = Some (r' @ concat rs')" by blast
    then show ?thesis
      using create [OF no] by (simp add: rs length_concat)
  qed
  show ?thesis using create created append seq by blast
qed

theorem insert_create_or_append_witness:
  "insert_records no_faults ''t'' [''r1'', ''r2''] \<lparr>snapshot = [], tables = [(''u'', [''x''])], txn = None\<rparr>
     = (None, \<lparr>snapshot = [], tables = [(''u'', [''x'']), (''t'', [''r1'', ''r2''])], txn = None\<rparr>)
   \<and> insert_records no_faults ''u'' [''r1'', ''r2''] \<lparr>snapshot = [], tables = [(''u'', [''x''])], txn = None\<rparr>
     = (None, \<lparr>snapshot = [], tables = [(''u'', [''x'', ''r1'', ''r2''])], txn = None\<rparr>)
   \<and> insert_all no_faults ''t'' [[''r1'', ''r2''], [], [''r3'']]
        \<lparr>snapshot = [], tables = [(''u'', [''x''])], txn = None\<rparr>
     = (None, \<lparr>snapshot = [], tables = [(''u'', [''x'']), (''t'', [''r1'', ''r2'', ''r3''])], txn = None\<rparr>)
   \<and> length (concat [[''r1'', ''r2''], [], [''r3'']]) = (3::nat)"
  using insert_create_or_append [of no_faults "''t''" "\<lparr>snapshot = [], tables = [(''u'', [''x''])], txn = None\<rparr>"
      "[''r1'', ''r2'']" "[[''r1'', ''r2''], [], [''r3'']]"]
  by (simp add: insert_records_def tableExists_def showTables_def)


text \<open>
  Claim C10. \<open>New\<close> does not validate the retention count: for every integer
  \<open>n\<close>, zero and negative ones included, it succeeds whenever the directories, the
  connector, the connection and the options succeed, and the client holds \<open>n\<close> as
  given; \<open>Close\<close> hands that \<open>n\<close> to \<open>rotate\<close> as its limit, so that a client with
  \<open>n = 0\<close> leaves the snapshot directory empty, the snapshot just written included.
\<close>

theorem New_keeps_any_n:
  assumes "\<not> e MkdirAll" "\<not> e NewConnector" "\<not> e Conn" "apply_options options = None"
  shows "New e dir n options = Inr \<lparr>c_dir = dir, c_n = n\<rparr>
    \<and> Close no_faults \<lparr>c_dir = dir, c_n = n\<rparr> ident w =
          (fst (rotate_dir no_faults n (AList.update ident (Archive (tables w)) (snapshot w))),
           w\<lparr>snapshot := snd (rotate_dir no_faults n
                  (AList.update ident (Archive (tables w)) (snapshot w)))\<rparr>)
    \<and> (n = 0 \<and> distinct (map fst (snapshot w)) \<longrightarrow>
          Close no_faults \<lparr>c_dir = dir, c_n = n\<rparr> ident w = (None, w\<lparr>snapshot := []\<rparr>))"
proof -
  let ?c = "\<lparr>c_dir = dir, c_n = n\<rparr>"
  let ?d = "AList.update ident (Archive (tables w)) (snapshot w)"
  have new: "New e dir n options = Inr ?c"
    using assms by (simp add: New_def)
  have upd: "AList.update ident (Archive (tables w)) (os_Create ident (snapshot w)) = ?d"
    by (simp add: os_Create_def)
  have close: "Close no_faults ?c ident w =
      (fst (rotate_dir no_faults n ?d), w\<lparr>snapshot := snd (rotate_dir no_faults n ?d)\<rparr>)"
    by (simp add: Close_def dumpAndZip_def upd split: prod.splits option.splits)
  have zero: "Close no_faults ?c ident w = (None, w\<lparr>snapshot := []\<rparr>)"
    if "n = 0" "distinct (map fst (snapshot w))"
  proof -
    have "distinct (map fst ?d)" using that(2) by (simp add: distinct_update)
    then have rot: "rotate_dir no_faults 0 ?d = (None, [])" by (rule rotate_dir_zero)
    show ?thesis unfolding close using rot that(1) by simp
  qed
  show ?thesis using new close zero by blast
qed

theorem New_keeps_any_n_witness:
  "New no_faults ''d'' (- 2) [None, None] = Inr \<lparr>c_dir = ''d'', c_n = - 2\<rparr>
   \<and> New no_faults ''d'' 0 [None, None] = Inr \<lparr>c_dir = ''d'', c_n = 0\<rparr>
   \<and> Close no_faults \<lparr>c_dir = ''d'', c_n = 0\<rparr> ''01B''
        \<lparr>snapshot = [(''01A'', Archive [])], tables = [(''t'', [''r1''])], txn = None\<rparr>
      = (None, \<lparr>snapshot = [], tables = [(''t'', [''r1''])], txn = None\<rparr>)"
  using New_keeps_any_n [of no_faults "[None, None]" "''d''" "- 2" "''01B''"
        "\<lparr>snapshot = [(''01A'', Archive [])], tables = [(''t'', [''r1''])], txn = None\<rparr>"]
    New_keeps_any_n [of no_faults "[None, None]" "''d''" 0 "''01B''"
        "\<lparr>snapshot = [(''01A'', Archive [])], tables = [(''t'', [''r1''])], txn = None\<rparr>"]
  by (simp add: rotate_dir_def listDir_def os_Remove_def)


text \<open>
  Claim C1, on the code. With three entries and the limit 2, \<open>rotate\<close> removes
  \<open>01C\<close>, the entry of the greatest name, and keeps the two smallest names; the claim
  has it remove \<open>01A\<close> and keep \<open>01B\<close> and \<open>01C\<close>.
\<close>

theorem rotate_dir_removes_greatest:
  "rotate_dir no_faults 2 [(''01A'', Archive []), (''01B'', Archive []), (''01C'', Archive [])]
     = (None, [(''01A'', Archive []), (''01B'', Archive [])])"
  by (simp add: rotate_dir_def listDir_def os_Remove_def)

text \<open>
  Claim C2, on the code. Four successful \<open>Close\<close> calls with the limit 3 and
  increasing identifiers leave three entries, but they are the first three snapshots:
  the fourth, the most recent one, is the one rotated away.
\<close>

theorem close_all_keeps_oldest:
  "close_all no_faults \<lparr>c_dir = ''d'', c_n = 3\<rparr> [''01A'', ''01B'', ''01C'', ''01D'']
       \<lparr>snapshot = [], tables = [(''t'', [''r''])], txn = None\<rparr>
     = (None,
        \<lparr>snapshot = [(''01A'', Archive [(''t'', [''r''])]), (''01B'', Archive [(''t'', [''r''])]),
                     (''01C'', Archive [(''t'', [''r''])])],
         tables = [(''t'', [''r''])], txn = None\<rparr>)"
  by (simp add: Close_def dumpAndZip_def os_Create_def rotate_dir_def listDir_def os_Remove_def)

text \<open>
  Claim C3, on the code. The index 0 is out of range, yet \<open>RollbackSnapshot(0)\<close>
  returns no \<open>InvalidArgument\<close>: it passes the check of line 208, drops every table,
  commits, and panics on \<open>matches[len(matches)]\<close>. The index 4, above \<open>N = 3\<close>, is
  refused with nothing changed.
\<close>

theorem RollbackSnapshot_zero_panics:
  "RollbackSnapshot no_faults \<lparr>c_dir = ''d'', c_n = 3\<rparr> 0
        \<lparr>snapshot = [(''01A'', Archive [(''t'', [''r1''])])],
         tables = [(''t'', [''r1'', ''r2''])], txn = None\<rparr>
     = (Some Panic,
        \<lparr>snapshot = [(''01A'', Archive [(''t'', [''r1''])])], tables = [], txn = None\<rparr>)
   \<and> RollbackSnapshot no_faults \<lparr>c_dir = ''d'', c_n = 3\<rparr> 4
        \<lparr>snapshot = [(''01A'', Archive [(''t'', [''r1''])])],
         tables = [(''t'', [''r1'', ''r2''])], txn = None\<rparr>
     = (Some InvalidArgument,
        \<lparr>snapshot = [(''01A'', Archive [(''t'', [''r1''])])],
         tables = [(''t'', [''r1'', ''r2''])], txn = None\<rparr>)"
  by (simp add: RollbackSnapshot_def listDir_def showTables_def tx_begin_def tx_rollback_def
      rollback_body_def tx_drop_def tx_commit_def snapshot_index_def)

text \<open>
  Claim C6, on the code. When \<open>EXPORT DATABASE\<close> fails, \<open>Close\<close> returns the error
  and the file it created under the final name stays in the snapshot directory, where
  \<open>listDir\<close> lists it; a later \<open>RollbackSnapshot(1)\<close> selects it, drops the tables
  and fails on the unreadable archive.
\<close>

theorem Close_leaves_partial_file:
  "Close (\<lambda>k. k = Export) \<lparr>c_dir = ''d'', c_n = 3\<rparr> ''01B''
        \<lparr>snapshot = [(''01A'', Archive [])], tables = [(''t'', [''r1''])], txn = None\<rparr>
     = (Some EngineError,
        \<lparr>snapshot = [(''01A'', Archive []), (''01B'', Partial)],
         tables = [(''t'', [''r1''])], txn = None\<rparr>)
   \<and> listDir no_faults [(''01A'', Archive []), (''01B'', Partial)] = Inr [''01A'', ''01B'']
   \<and> RollbackSnapshot no_faults \<lparr>c_dir = ''d'', c_n = 3\<rparr> 1
        \<lparr>snapshot = [(''01A'', Archive []), (''01B'', Partial)],
         tables = [(''t'', [''r1''])], txn = None\<rparr>
     = (Some CorruptArchive,
        \<lparr>snapshot = [(''01A'', Archive []), (''01B'', Partial)], tables = [], txn = None\<rparr>)"
  by (simp add: Close_def dumpAndZip_def os_Create_def listDir_def
      RollbackSnapshot_def showTables_def tx_begin_def tx_rollback_def
      rollback_body_def tx_drop_def tx_commit_def snapshot_index_def unzipAndLoad_def)

text \<open>
  Claim C9, on the code. With \<open>N = 3\<close>, \<open>n = 3\<close> and two snapshots in the directory,
  \<open>n\<close> passes the check of line 208 and the index \<open>len(matches) - n\<close> is \<open>-1\<close>:
  the selection of line 238 is out of bounds, and the panic comes after the tables
  were dropped and the drop committed.
\<close>

theorem snapshot_index_out_of_range:
  "snapshot_index [''01A'', ''01B''] 3 = - 1
   \<and> RollbackSnapshot no_faults \<lparr>c_dir = ''d'', c_n = 3\<rparr> 3
        \<lparr>snapshot = [(''01A'', Archive [(''t'', [''r1''])]), (''01B'', Archive [(''t'', [''r1''])])],
         tables = [(''t'', [''r1'', ''r2''])], txn = None\<rparr>
     = (Some Panic,
        \<lparr>snapshot = [(''01A'', Archive [(''t'', [''r1''])]), (''01B'', Archive [(''t'', [''r1''])])],
         tables = [], txn = None\<rparr>)"
  by (simp add: RollbackSnapshot_def listDir_def showTables_def tx_begin_def tx_rollback_def
      rollback_body_def tx_drop_def tx_commit_def snapshot_index_def)


end
